theory Spec2Isabelle
  imports Complex_Main "HOL-Library.Word" "HOL-Library.Sublist"
begin

section \<open>Data model\<close>

text \<open>
  A JavaScript string is a sequence of 16-bit code units. The component keeps its
  tasks in an array of \<^verbatim>\<open>Todo\<close> objects (\<^verbatim>\<open>interface Todo\<close> in \<^verbatim>\<open>App.tsx\<close>);
  the fields \<^verbatim>\<open>id\<close> and \<^verbatim>\<open>text\<close> carry a suffix here because both names are taken.
  The \<^verbatim>\<open>id\<close> is the result of \<^verbatim>\<open>Date.now()\<close>, a whole number of milliseconds.
\<close>

type_synonym jsstring = "16 word list"

record Todo =
  id_of :: int
  text_of :: jsstring
  completed :: bool
  createdAt :: jsstring

text \<open>The two \<^verbatim>\<open>useState\<close> cells of \<^verbatim>\<open>App\<close>.\<close>

record App =
  todos :: "Todo list"
  inputValue :: jsstring

definition lit :: "string \<Rightarrow> jsstring" where
  "lit s = map of_char s"

section \<open>Task store\<close>

text \<open>\<^verbatim>\<open>useState<Todo[]>([])\<close> and \<^verbatim>\<open>useState<string>('')\<close>.\<close>

definition initial :: App where
  "initial = \<lparr>todos = [], inputValue = []\<rparr>"

definition handleInputChange :: "jsstring \<Rightarrow> App \<Rightarrow> App" where
  "handleInputChange v st = st\<lparr>inputValue := v\<rparr>"

text \<open>
  \<^verbatim>\<open>addTodo\<close> reads the clock twice: \<open>now\<close> is the value of \<^verbatim>\<open>Date.now()\<close> and
  \<open>stamp\<close> the value of \<^verbatim>\<open>new Date().toISOString()\<close>. A string is truthy exactly when
  it is not empty.
\<close>

definition addTodo :: "int \<Rightarrow> jsstring \<Rightarrow> App \<Rightarrow> App" where
  "addTodo now stamp st =
     (if inputValue st \<noteq> [] then
        let newTodo = \<lparr>id_of = now, text_of = inputValue st, completed = False, createdAt = stamp\<rparr>
        in st\<lparr>todos := todos st @ [newTodo], inputValue := []\<rparr>
      else st)"

definition toggleTodo :: "int \<Rightarrow> App \<Rightarrow> App" where
  "toggleTodo i st =
     st\<lparr>todos := map (\<lambda>todo. if id_of todo = i then todo\<lparr>completed := \<not> completed todo\<rparr> else todo)
                     (todos st)\<rparr>"

definition deleteTodo :: "int \<Rightarrow> App \<Rightarrow> App" where
  "deleteTodo i st = st\<lparr>todos := filter (\<lambda>todo. id_of todo \<noteq> i) (todos st)\<rparr>"

definition editTodo :: "int \<Rightarrow> jsstring \<Rightarrow> App \<Rightarrow> App" where
  "editTodo i newText st =
     st\<lparr>todos := map (\<lambda>todo. if id_of todo = i then todo\<lparr>text_of := newText\<rparr> else todo)
                     (todos st)\<rparr>"

text \<open>
  The derived counts. \<^verbatim>\<open>length\<close> is a JavaScript number, so the difference
  \<^verbatim>\<open>totalCount - completedCount\<close> of the statistics line is taken in \<open>int\<close>.
\<close>

definition completedCount :: "App \<Rightarrow> int" where
  "completedCount st = int (length (filter (\<lambda>todo. completed todo) (todos st)))"

definition totalCount :: "App \<Rightarrow> int" where
  "totalCount st = int (length (todos st))"

definition remainingCount :: "App \<Rightarrow> int" where
  "remainingCount st = totalCount st - completedCount st"

text \<open>The tasks that carry a given id, in their order; used to state the properties.\<close>

definition matches :: "int \<Rightarrow> App \<Rightarrow> Todo list" where
  "matches i st = filter (\<lambda>todo. id_of todo = i) (todos st)"

section \<open>JSON text\<close>

text \<open>
  The slot of \<^verbatim>\<open>localStorage\<close> holds a JavaScript string. \<^verbatim>\<open>JSON.stringify\<close> and
  \<^verbatim>\<open>JSON.parse\<close> are built-ins of the language; they are modelled after ECMA-262
  (\<^verbatim>\<open>JSON.stringify\<close>, \<^verbatim>\<open>QuoteJSONString\<close>, \<^verbatim>\<open>JSON.parse\<close>) and the grammar of ECMA-404.
  An object is the list of its members in the order of the text. A parsed number is kept
  as the exact rational value of its literal; a JavaScript number agrees with it on every
  integer of magnitude at most \<open>2\<^sup>5\<^sup>3 - 1\<close>.
\<close>

datatype json =
    JNull
  | JBool bool
  | JNum rat
  | JStr jsstring
  | JArr "json list"
  | JObj "(jsstring \<times> json) list"

text \<open>
  The exceptions: \<open>SyntaxError\<close> is thrown by \<^verbatim>\<open>JSON.parse\<close>, \<open>QuotaExceededError\<close> by
  \<^verbatim>\<open>localStorage.setItem\<close>. The reader below recurses on a counter; \<open>OutOfFuel\<close> marks
  the counter running out, which never happens with the counter that \<open>JSON_parse\<close>
  starts from (lemma \<open>JSON_parse_never_out_of_fuel\<close>).
\<close>

datatype exn = SyntaxError | QuotaExceededError | OutOfFuel

subsection \<open>Writing\<close>

text \<open>
  \<^verbatim>\<open>JSON.stringify\<close> at the type \<^verbatim>\<open>Todo[]\<close>: an array of objects whose own properties
  are, in creation order, \<^verbatim>\<open>id\<close>, \<^verbatim>\<open>text\<close>, \<^verbatim>\<open>completed\<close>, \<^verbatim>\<open>createdAt\<close> (the object
  literal in \<^verbatim>\<open>addTodo\<close>; the spread in \<^verbatim>\<open>toggleTodo\<close> and \<^verbatim>\<open>editTodo\<close> keeps that order).
  \<^verbatim>\<open>QuoteJSONString\<close> writes the seven short escapes, \<^verbatim>\<open>\uXXXX\<close> with lower-case digits
  for the other code units below \<open>0x20\<close> and for unpaired surrogates, and every other
  code unit as it is. \<open>NumberToString\<close> writes an integer in decimal digits, as
  JavaScript does for integers of magnitude below \<open>10\<^sup>2\<^sup>1\<close>.
\<close>

definition hex_digit :: "nat \<Rightarrow> 16 word" where
  "hex_digit d = (if d < 10 then of_nat (48 + d) else of_nat (87 + d))"

definition unicode_escape :: "16 word \<Rightarrow> jsstring" where
  "unicode_escape c =
     [0x5C, 0x75,
      hex_digit (unat c div 4096), hex_digit (unat c div 256 mod 16),
      hex_digit (unat c div 16 mod 16), hex_digit (unat c mod 16)]"

definition is_lead :: "16 word \<Rightarrow> bool" where
  "is_lead c \<longleftrightarrow> 0xD800 \<le> c \<and> c \<le> 0xDBFF"

definition is_trail :: "16 word \<Rightarrow> bool" where
  "is_trail c \<longleftrightarrow> 0xDC00 \<le> c \<and> c \<le> 0xDFFF"

definition quote_unit :: "16 word \<Rightarrow> jsstring" where
  "quote_unit c =
     (if c = 0x08 then [0x5C, 0x62]
      else if c = 0x09 then [0x5C, 0x74]
      else if c = 0x0A then [0x5C, 0x6E]
      else if c = 0x0C then [0x5C, 0x66]
      else if c = 0x0D then [0x5C, 0x72]
      else if c = 0x22 then [0x5C, 0x22]
      else if c = 0x5C then [0x5C, 0x5C]
      else if c < 0x20 \<or> is_lead c \<or> is_trail c then unicode_escape c
      else [c])"

fun quote_chars :: "jsstring \<Rightarrow> jsstring" where
  "quote_chars [] = []"
| "quote_chars [c] = quote_unit c"
| "quote_chars (c # d # cs) =
     (if is_lead c \<and> is_trail d then c # d # quote_chars cs
      else quote_unit c @ quote_chars (d # cs))"

definition QuoteJSONString :: "jsstring \<Rightarrow> jsstring" where
  "QuoteJSONString s = 0x22 # quote_chars s @ [0x22]"

fun nat_digits :: "nat \<Rightarrow> jsstring" where
  "nat_digits n =
     (if n < 10 then [of_nat (48 + n)] else nat_digits (n div 10) @ [of_nat (48 + n mod 10)])"

declare nat_digits.simps [simp del]

definition NumberToString :: "int \<Rightarrow> jsstring" where
  "NumberToString n = (if n < 0 then 0x2D # nat_digits (nat (- n)) else nat_digits (nat n))"

definition BooleanToString :: "bool \<Rightarrow> jsstring" where
  "BooleanToString b = (if b then lit ''true'' else lit ''false'')"

definition stringify_todo :: "Todo \<Rightarrow> jsstring" where
  "stringify_todo todo =
     [0x7B] @ QuoteJSONString (lit ''id'') @ [0x3A] @ NumberToString (id_of todo) @
     [0x2C] @ QuoteJSONString (lit ''text'') @ [0x3A] @ QuoteJSONString (text_of todo) @
     [0x2C] @ QuoteJSONString (lit ''completed'') @ [0x3A] @ BooleanToString (completed todo) @
     [0x2C] @ QuoteJSONString (lit ''createdAt'') @ [0x3A] @ QuoteJSONString (createdAt todo) @
     [0x7D]"

fun join_comma :: "jsstring list \<Rightarrow> jsstring" where
  "join_comma [] = []"
| "join_comma [x] = x"
| "join_comma (x # y # ys) = x @ 0x2C # join_comma (y # ys)"

definition JSON_stringify :: "Todo list \<Rightarrow> jsstring" where
  "JSON_stringify ts = 0x5B # join_comma (map stringify_todo ts) @ [0x5D]"

subsection \<open>Reading\<close>

text \<open>
  \<^verbatim>\<open>JSON.parse\<close>: a value between optional white space (tab, line feed, carriage
  return, space). A string may hold any code unit from \<open>0x20\<close> on except the quote and
  the backslash, and the escapes \<^verbatim>\<open>\" \\ \/ \b \f \n \r \t \uXXXX\<close>. A number is an
  optional minus, \<^verbatim>\<open>0\<close> or a digit sequence without leading zero, an optional fraction
  and an optional exponent. Every failure is a \<open>SyntaxError\<close>.
\<close>

definition is_ws :: "16 word \<Rightarrow> bool" where
  "is_ws c \<longleftrightarrow> c = 0x09 \<or> c = 0x0A \<or> c = 0x0D \<or> c = 0x20"

definition skip_ws :: "jsstring \<Rightarrow> jsstring" where
  "skip_ws s = dropWhile is_ws s"

definition is_digit :: "16 word \<Rightarrow> bool" where
  "is_digit c \<longleftrightarrow> 0x30 \<le> c \<and> c \<le> 0x39"

definition digits_val :: "jsstring \<Rightarrow> nat" where
  "digits_val ds = foldl (\<lambda>a c. 10 * a + (unat c - 48)) 0 ds"

definition hex_val :: "16 word \<Rightarrow> nat option" where
  "hex_val c =
     (if 0x30 \<le> c \<and> c \<le> 0x39 then Some (unat c - 48)
      else if 0x41 \<le> c \<and> c \<le> 0x46 then Some (unat c - 55)
      else if 0x61 \<le> c \<and> c \<le> 0x66 then Some (unat c - 87)
      else None)"

definition hex4 :: "16 word \<Rightarrow> 16 word \<Rightarrow> 16 word \<Rightarrow> 16 word \<Rightarrow> 16 word option" where
  "hex4 a b c d =
     (case (hex_val a, hex_val b, hex_val c, hex_val d) of
        (Some x3, Some x2, Some x1, Some x0) \<Rightarrow> Some (of_nat (4096 * x3 + 256 * x2 + 16 * x1 + x0))
      | _ \<Rightarrow> None)"

definition unescape :: "16 word \<Rightarrow> 16 word option" where
  "unescape e =
     (if e = 0x22 then Some 0x22
      else if e = 0x5C then Some 0x5C
      else if e = 0x2F then Some 0x2F
      else if e = 0x62 then Some 0x08
      else if e = 0x66 then Some 0x0C
      else if e = 0x6E then Some 0x0A
      else if e = 0x72 then Some 0x0D
      else if e = 0x74 then Some 0x09
      else None)"

definition cons_unit :: "16 word \<Rightarrow> exn + (jsstring \<times> jsstring) \<Rightarrow> exn + (jsstring \<times> jsstring)" where
  "cons_unit u res = (case res of Inl e \<Rightarrow> Inl e | Inr (s, r) \<Rightarrow> Inr (u # s, r))"

fun parse_chars :: "jsstring \<Rightarrow> exn + (jsstring \<times> jsstring)" where
  "parse_chars [] = Inl SyntaxError"
| "parse_chars (c # cs) =
     (if c = 0x22 then Inr ([], cs)
      else if c = 0x5C then
        (case cs of
           [] \<Rightarrow> Inl SyntaxError
         | e # r \<Rightarrow>
             if e = 0x75 then
               (case r of
                  h1 # h2 # h3 # h4 # r' \<Rightarrow>
                    (case hex4 h1 h2 h3 h4 of
                       None \<Rightarrow> Inl SyntaxError
                     | Some u \<Rightarrow> cons_unit u (parse_chars r'))
                | _ \<Rightarrow> Inl SyntaxError)
             else
               (case unescape e of
                  None \<Rightarrow> Inl SyntaxError
                | Some u \<Rightarrow> cons_unit u (parse_chars r)))
      else if c < 0x20 then Inl SyntaxError
      else cons_unit c (parse_chars cs))"

definition parse_int_part :: "jsstring \<Rightarrow> exn + (nat \<times> jsstring)" where
  "parse_int_part s =
     (case s of
        [] \<Rightarrow> Inl SyntaxError
      | c # cs \<Rightarrow>
          if c = 0x30 then Inr (0, cs)
          else if is_digit c then Inr (digits_val (takeWhile is_digit s), dropWhile is_digit s)
          else Inl SyntaxError)"

definition parse_frac :: "jsstring \<Rightarrow> exn + (rat \<times> jsstring)" where
  "parse_frac s =
     (case s of
        [] \<Rightarrow> Inr (0, s)
      | c # cs \<Rightarrow>
          if c = 0x2E then
            (let ds = takeWhile is_digit cs
             in if ds = [] then Inl SyntaxError
                else Inr (of_nat (digits_val ds) / 10 ^ length ds, dropWhile is_digit cs))
          else Inr (0, s))"

definition parse_sign :: "jsstring \<Rightarrow> bool \<times> jsstring" where
  "parse_sign s =
     (case s of
        [] \<Rightarrow> (False, s)
      | c # cs \<Rightarrow> if c = 0x2D then (True, cs) else if c = 0x2B then (False, cs) else (False, s))"

definition parse_exp :: "jsstring \<Rightarrow> exn + ((bool \<times> nat) \<times> jsstring)" where
  "parse_exp s =
     (case s of
        [] \<Rightarrow> Inr ((False, 0), s)
      | c # cs \<Rightarrow>
          if c = 0x65 \<or> c = 0x45 then
            (let (neg, r) = parse_sign cs; ds = takeWhile is_digit r
             in if ds = [] then Inl SyntaxError
                else Inr ((neg, digits_val ds), dropWhile is_digit r))
          else Inr ((False, 0), s))"

definition parse_unsigned :: "jsstring \<Rightarrow> exn + (rat \<times> jsstring)" where
  "parse_unsigned s =
     (case parse_int_part s of
        Inl e \<Rightarrow> Inl e
      | Inr (ip, s1) \<Rightarrow>
          (case parse_frac s1 of
             Inl e \<Rightarrow> Inl e
           | Inr (fr, s2) \<Rightarrow>
               (case parse_exp s2 of
                  Inl e \<Rightarrow> Inl e
                | Inr ((eneg, ex), s3) \<Rightarrow>
                    Inr (if eneg then (of_nat ip + fr) / 10 ^ ex else (of_nat ip + fr) * 10 ^ ex, s3))))"

definition parse_number :: "jsstring \<Rightarrow> exn + (rat \<times> jsstring)" where
  "parse_number s =
     (case s of
        [] \<Rightarrow> Inl SyntaxError
      | c # cs \<Rightarrow>
          if c = 0x2D then
            (case parse_unsigned cs of
               Inl e \<Rightarrow> Inl e
             | Inr (x, r) \<Rightarrow> Inr (- x, r))
          else parse_unsigned s)"

definition expect_word :: "jsstring \<Rightarrow> json \<Rightarrow> jsstring \<Rightarrow> exn + (json \<times> jsstring)" where
  "expect_word w v s =
     (if take (length w) s = w then Inr (v, drop (length w) s) else Inl SyntaxError)"

fun parse_value :: "nat \<Rightarrow> jsstring \<Rightarrow> exn + (json \<times> jsstring)"
  and parse_elements :: "nat \<Rightarrow> jsstring \<Rightarrow> exn + (json list \<times> jsstring)"
  and parse_members :: "nat \<Rightarrow> jsstring \<Rightarrow> exn + ((jsstring \<times> json) list \<times> jsstring)"
where
  "parse_value 0 s = Inl OutOfFuel"
| "parse_value (Suc n) [] = Inl SyntaxError"
| "parse_value (Suc n) (c # cs) =
     (if c = 0x7B then
        (case skip_ws cs of
           [] \<Rightarrow> Inl SyntaxError
         | d # r \<Rightarrow>
             if d = 0x7D then Inr (JObj [], r)
             else (case parse_members n (d # r) of
                     Inl e \<Rightarrow> Inl e
                   | Inr (ms, r') \<Rightarrow> Inr (JObj ms, r')))
      else if c = 0x5B then
        (case skip_ws cs of
           [] \<Rightarrow> Inl SyntaxError
         | d # r \<Rightarrow>
             if d = 0x5D then Inr (JArr [], r)
             else (case parse_elements n (d # r) of
                     Inl e \<Rightarrow> Inl e
                   | Inr (vs, r') \<Rightarrow> Inr (JArr vs, r')))
      else if c = 0x22 then
        (case parse_chars cs of
           Inl e \<Rightarrow> Inl e
         | Inr (str, r) \<Rightarrow> Inr (JStr str, r))
      else if c = 0x74 then expect_word (lit ''true'') (JBool True) (c # cs)
      else if c = 0x66 then expect_word (lit ''false'') (JBool False) (c # cs)
      else if c = 0x6E then expect_word (lit ''null'') JNull (c # cs)
      else
        (case parse_number (c # cs) of
           Inl e \<Rightarrow> Inl e
         | Inr (q, r) \<Rightarrow> Inr (JNum q, r)))"
| "parse_elements 0 s = Inl OutOfFuel"
| "parse_elements (Suc n) s =
     (case parse_value n (skip_ws s) of
        Inl e \<Rightarrow> Inl e
      | Inr (v, r) \<Rightarrow>
          (case skip_ws r of
             [] \<Rightarrow> Inl SyntaxError
           | d # r' \<Rightarrow>
               if d = 0x2C then
                 (case parse_elements n r' of
                    Inl e \<Rightarrow> Inl e
                  | Inr (vs, r'') \<Rightarrow> Inr (v # vs, r''))
               else if d = 0x5D then Inr ([v], r')
               else Inl SyntaxError))"
| "parse_members 0 s = Inl OutOfFuel"
| "parse_members (Suc n) s =
     (case skip_ws s of
        [] \<Rightarrow> Inl SyntaxError
      | q # r \<Rightarrow>
          if q \<noteq> 0x22 then Inl SyntaxError
          else
            (case parse_chars r of
               Inl e \<Rightarrow> Inl e
             | Inr (k, r1) \<Rightarrow>
                 (case skip_ws r1 of
                    [] \<Rightarrow> Inl SyntaxError
                  | col # r2 \<Rightarrow>
                      if col \<noteq> 0x3A then Inl SyntaxError
                      else
                        (case parse_value n (skip_ws r2) of
                           Inl e \<Rightarrow> Inl e
                         | Inr (v, r3) \<Rightarrow>
                             (case skip_ws r3 of
                                [] \<Rightarrow> Inl SyntaxError
                              | d # r4 \<Rightarrow>
                                  if d = 0x2C then
                                    (case parse_members n r4 of
                                       Inl e \<Rightarrow> Inl e
                                     | Inr (ms, r5) \<Rightarrow> Inr ((k, v) # ms, r5))
                                  else if d = 0x7D then Inr ([(k, v)], r4)
                                  else Inl SyntaxError)))))"

definition fuel :: "jsstring \<Rightarrow> nat" where
  "fuel s = 2 * length s + 1"

definition JSON_parse :: "jsstring \<Rightarrow> exn + json" where
  "JSON_parse s =
     (case parse_value (fuel s) (skip_ws s) of
        Inl e \<Rightarrow> Inl e
      | Inr (v, r) \<Rightarrow> if skip_ws r = [] then Inr v else Inl SyntaxError)"

subsection \<open>Tasks as JSON values\<close>

text \<open>
  \<open>json_of_todo\<close> is the JavaScript object of a task. The annotation
  \<^verbatim>\<open>const parsedTodos: Todo[]\<close> is not checked when the program runs: whatever
  \<^verbatim>\<open>JSON.parse\<close> returns becomes the state. \<open>as_todos\<close> reads a parsed value as a list
  of tasks when it has exactly the shape the component writes, and is \<open>None\<close> on every
  other value, where the typed operations of the task store do not apply. An id is read
  only from a number that is an integer of magnitude at most \<open>2\<^sup>5\<^sup>3 - 1\<close>: beyond that
  the JavaScript number that \<^verbatim>\<open>JSON.parse\<close> returns need not be the value of the literal.

  A well-formed collection has ids that a JavaScript number holds exactly, as every
  result of \<^verbatim>\<open>Date.now()\<close> is.
\<close>

definition json_of_todo :: "Todo \<Rightarrow> json" where
  "json_of_todo todo =
     JObj [(lit ''id'', JNum (of_int (id_of todo))),
           (lit ''text'', JStr (text_of todo)),
           (lit ''completed'', JBool (completed todo)),
           (lit ''createdAt'', JStr (createdAt todo))]"

definition json_of_todos :: "Todo list \<Rightarrow> json" where
  "json_of_todos ts = JArr (map json_of_todo ts)"

definition as_todo :: "json \<Rightarrow> Todo option" where
  "as_todo v =
     (case v of
        JObj [(k1, JNum q), (k2, JStr s), (k3, JBool b), (k4, JStr c)] \<Rightarrow>
          if k1 = lit ''id'' \<and> k2 = lit ''text'' \<and> k3 = lit ''completed'' \<and>
             k4 = lit ''createdAt'' \<and> of_int \<lfloor>q\<rfloor> = q \<and> \<bar>\<lfloor>q\<rfloor>\<bar> \<le> 9007199254740991
          then Some \<lparr>id_of = \<lfloor>q\<rfloor>, text_of = s, completed = b, createdAt = c\<rparr>
          else None
      | _ \<Rightarrow> None)"

definition as_todos :: "json \<Rightarrow> Todo list option" where
  "as_todos v = (case v of JArr vs \<Rightarrow> those (map as_todo vs) | _ \<Rightarrow> None)"

definition well_formed :: "Todo list \<Rightarrow> bool" where
  "well_formed ts = list_all (\<lambda>todo. \<bar>id_of todo\<bar> \<le> 9007199254740991) ts"

section \<open>Persistence\<close>

text \<open>
  The browser, as far as the component touches it: the string stored under the key
  \<^verbatim>\<open>'todos'\<close> of \<^verbatim>\<open>localStorage\<close> (\<open>None\<close> when the key is absent, for which
  \<^verbatim>\<open>getItem\<close> returns \<^verbatim>\<open>null\<close>) and the messages passed to \<^verbatim>\<open>console.error\<close>.

  The room of the store is limited. \<open>quota\<close> is the number of code units that the browser
  accepts as the value of the key (what the origin's quota leaves once the key and the
  other keys are counted; the amount is the browser's choice). \<^verbatim>\<open>setItem\<close> with a longer
  value throws \<open>QuotaExceededError\<close> and leaves the store as it is.
\<close>

record browser =
  storage :: "jsstring option"
  console :: "jsstring list"

definition getItem :: "browser \<Rightarrow> jsstring option" where
  "getItem b = storage b"

definition setItem :: "nat \<Rightarrow> jsstring \<Rightarrow> browser \<Rightarrow> exn + browser" where
  "setItem quota v b =
     (if length v \<le> quota then Inr (b\<lparr>storage := Some v\<rparr>) else Inl QuotaExceededError)"

definition removeItem :: "browser \<Rightarrow> browser" where
  "removeItem b = b\<lparr>storage := None\<rparr>"

definition console_error :: "jsstring \<Rightarrow> browser \<Rightarrow> browser" where
  "console_error msg b = b\<lparr>console := console b @ [msg]\<rparr>"

text \<open>
  The first effect of \<^verbatim>\<open>App\<close>. \<^verbatim>\<open>null\<close> and the empty string are falsy, so the guard
  \<^verbatim>\<open>if (savedTodos)\<close> passes exactly for a non-empty string. The \<^verbatim>\<open>try\<close> block calls
  \<^verbatim>\<open>JSON.parse\<close> and then \<^verbatim>\<open>setTodos\<close>; the \<^verbatim>\<open>catch\<close> block logs and removes the key.
  The result is the argument of \<^verbatim>\<open>setTodos\<close>, if it was called, and the browser
  afterwards; \<open>Inl\<close> would be an exception that leaves the effect.
\<close>

definition load :: "browser \<Rightarrow> exn + (json option \<times> browser)" where
  "load b =
     (case getItem b of
        None \<Rightarrow> Inr (None, b)
      | Some savedTodos \<Rightarrow>
          if savedTodos \<noteq> [] then
            (case JSON_parse savedTodos of
               Inr parsedTodos \<Rightarrow> Inr (Some parsedTodos, b)
             | Inl error \<Rightarrow>
                 Inr (None, removeItem
                   (console_error (lit ''Error parsing todos from localStorage:'') b)))
          else Inr (None, b))"

text \<open>
  The \<^verbatim>\<open>todos\<close> cell after the first effect: the initial empty array when
  \<^verbatim>\<open>setTodos\<close> was not called, else the parsed value.
\<close>

definition todos_after_load :: "json option \<Rightarrow> Todo list option" where
  "todos_after_load r = (case r of None \<Rightarrow> Some (todos initial) | Some v \<Rightarrow> as_todos v)"

text \<open>
  The second effect of \<^verbatim>\<open>App\<close>, run with the current \<^verbatim>\<open>todos\<close>. The call of
  \<^verbatim>\<open>setItem\<close> is not inside a \<^verbatim>\<open>try\<close> block, so its exception leaves the effect.
\<close>

definition save :: "nat \<Rightarrow> Todo list \<Rightarrow> browser \<Rightarrow> exn + browser" where
  "save quota ts b = setItem quota (JSON_stringify ts) b"

subsection \<open>Sample states\<close>

definition milk :: Todo where
  "milk = \<lparr>id_of = 1700000000000, text_of = lit ''Buy milk'', completed = False,
            createdAt = lit ''2023-11-14T22:13:20.000Z''\<rparr>"

definition bread :: Todo where
  "bread = \<lparr>id_of = 1700000000001, text_of = lit ''Buy bread'', completed = True,
             createdAt = lit ''2023-11-14T22:13:20.001Z''\<rparr>"

definition eggs :: Todo where
  "eggs = \<lparr>id_of = 1700000000000, text_of = lit ''Buy eggs'', completed = True,
            createdAt = lit ''2023-11-14T22:13:20.000Z''\<rparr>"

definition two_tasks :: App where
  "two_tasks = \<lparr>todos = [milk, bread], inputValue = lit ''Buy eggs''\<rparr>"

definition same_tick :: App where
  "same_tick = \<lparr>todos = [milk, bread, eggs], inputValue = []\<rparr>"

definition fresh_browser :: browser where
  "fresh_browser = \<lparr>storage = None, console = []\<rparr>"

section \<open>Properties of the task store\<close>

lemma toggle_twice_map:
  "map (\<lambda>todo. if id_of todo = i then todo\<lparr>completed := \<not> completed todo\<rparr> else todo)
     (map (\<lambda>todo. if id_of todo = i then todo\<lparr>completed := \<not> completed todo\<rparr> else todo) xs) = xs"
  by (induction xs) auto

lemma map_unmatched:
  "\<forall>todo \<in> set xs. id_of todo \<noteq> i \<Longrightarrow> map (\<lambda>todo. if id_of todo = i then f todo else todo) xs = xs"
  by (induction xs) auto

lemma filter_unmatched:
  "\<forall>todo \<in> set xs. id_of todo \<noteq> i \<Longrightarrow> filter (\<lambda>todo. id_of todo \<noteq> i) xs = xs"
  by (induction xs) auto

text \<open>
  C3. \<^verbatim>\<open>addTodo\<close> with an empty input leaves the state as it is; with a non-empty input
  it appends, at the end, one task that holds the input unmodified, is not completed,
  and carries the clock's id and timestamp; the collection grows by exactly one.
\<close>

theorem addTodo_appends:
  "(inputValue st = [] \<longrightarrow> addTodo now stamp st = st) \<and>
   (inputValue st \<noteq> [] \<longrightarrow>
      todos (addTodo now stamp st) =
        todos st @ [\<lparr>id_of = now, text_of = inputValue st, completed = False, createdAt = stamp\<rparr>] \<and>
      totalCount (addTodo now stamp st) = totalCount st + 1)"
  by (simp add: addTodo_def totalCount_def Let_def)

theorem addTodo_appends_witness:
  "inputValue initial = [] \<and> addTodo 5 (lit ''t'') initial = initial \<and>
   inputValue two_tasks \<noteq> [] \<and>
   todos (addTodo 5 (lit ''t'') two_tasks) =
     [milk, bread, \<lparr>id_of = 5, text_of = lit ''Buy eggs'', completed = False, createdAt = lit ''t''\<rparr>] \<and>
   totalCount (addTodo 5 (lit ''t'') two_tasks) = 3"
  using addTodo_appends [of initial 5 "lit ''t''"] addTodo_appends [of two_tasks 5 "lit ''t''"]
  by (simp add: initial_def two_tasks_def totalCount_def lit_def)

text \<open>
  C4. Toggling the same id twice gives back the state, and toggling an id that no task
  carries changes nothing.
\<close>

theorem toggleTodo_involution:
  "toggleTodo i (toggleTodo i st) = st \<and>
   (matches i st = [] \<longrightarrow> toggleTodo i st = st)"
proof
  show "toggleTodo i (toggleTodo i st) = st"
    by (simp add: toggleTodo_def toggle_twice_map del: map_map)
next
  show "matches i st = [] \<longrightarrow> toggleTodo i st = st"
  proof
    assume "matches i st = []"
    then have "\<forall>todo \<in> set (todos st). id_of todo \<noteq> i"
      by (simp add: matches_def filter_empty_conv)
    then show "toggleTodo i st = st"
      by (simp add: toggleTodo_def map_unmatched)
  qed
qed

theorem toggleTodo_involution_witness:
  "matches 7 two_tasks = [] \<and> toggleTodo 7 two_tasks = two_tasks \<and>
   toggleTodo 1700000000000 (toggleTodo 1700000000000 two_tasks) = two_tasks"
  using toggleTodo_involution [of 7 two_tasks] toggleTodo_involution [of 1700000000000 two_tasks]
  by (simp add: matches_def two_tasks_def milk_def bread_def)

lemma filter_single_split:
  "length (filter P xs) = 1 \<Longrightarrow>
     \<exists>ys t zs. xs = ys @ t # zs \<and> P t \<and> filter (\<lambda>x. \<not> P x) xs = ys @ zs"
proof (induction xs)
  case Nil
  then show ?case by simp
next
  case (Cons x xs)
  show ?case
  proof (cases "P x")
    case True
    with Cons.prems have "filter P xs = []" by simp
    then have "filter (\<lambda>x. \<not> P x) xs = xs"
      by (simp add: filter_empty_conv filter_id_conv)
    with True have "x # xs = [] @ x # xs \<and> P x \<and> filter (\<lambda>x. \<not> P x) (x # xs) = [] @ xs"
      by simp
    then show ?thesis by blast
  next
    case False
    with Cons.prems have "length (filter P xs) = 1" by simp
    then obtain ys t zs where
      "xs = ys @ t # zs" "P t" "filter (\<lambda>x. \<not> P x) xs = ys @ zs"
      using Cons.IH by blast
    with False have
      "x # xs = (x # ys) @ t # zs \<and> P t \<and> filter (\<lambda>x. \<not> P x) (x # xs) = (x # ys) @ zs"
      by simp
    then show ?thesis by blast
  qed
qed

lemma length_filter_split:
  "length (filter (\<lambda>x. \<not> P x) xs) + length (filter P xs) = length xs"
  by (induction xs) auto

text \<open>
  C5, as amended. When exactly one task carries the id, \<^verbatim>\<open>deleteTodo\<close> removes that
  task and nothing else, and the count drops by one. Deleting the same id again changes
  nothing, and neither does deleting an id that no task carries.
\<close>

theorem deleteTodo_single:
  "(length (matches i st) = 1 \<longrightarrow>
      (\<exists>ys t zs. todos st = ys @ t # zs \<and> id_of t = i \<and> todos (deleteTodo i st) = ys @ zs) \<and>
      totalCount (deleteTodo i st) = totalCount st - 1) \<and>
   deleteTodo i (deleteTodo i st) = deleteTodo i st \<and>
   (matches i st = [] \<longrightarrow> deleteTodo i st = st)"
proof (intro conjI impI)
  assume one: "length (matches i st) = 1"
  then show "\<exists>ys t zs. todos st = ys @ t # zs \<and> id_of t = i \<and> todos (deleteTodo i st) = ys @ zs"
    using filter_single_split [of "\<lambda>todo. id_of todo = i" "todos st"]
    by (simp add: matches_def deleteTodo_def)
  show "totalCount (deleteTodo i st) = totalCount st - 1"
    using one length_filter_split [of "\<lambda>todo. id_of todo = i" "todos st"]
    by (simp add: matches_def deleteTodo_def totalCount_def)
next
  show "deleteTodo i (deleteTodo i st) = deleteTodo i st"
    by (simp add: deleteTodo_def)
next
  assume "matches i st = []"
  then have "\<forall>todo \<in> set (todos st). id_of todo \<noteq> i"
    by (simp add: matches_def filter_empty_conv)
  then show "deleteTodo i st = st"
    by (simp add: deleteTodo_def filter_unmatched)
qed

theorem deleteTodo_single_witness:
  "length (matches 1700000000001 two_tasks) = 1 \<and>
   todos (deleteTodo 1700000000001 two_tasks) = [milk] \<and>
   totalCount (deleteTodo 1700000000001 two_tasks) = totalCount two_tasks - 1 \<and>
   deleteTodo 1700000000001 (deleteTodo 1700000000001 two_tasks) = deleteTodo 1700000000001 two_tasks \<and>
   matches 7 two_tasks = [] \<and> deleteTodo 7 two_tasks = two_tasks"
  using deleteTodo_single [of 1700000000001 two_tasks] deleteTodo_single [of 7 two_tasks]
  by (simp add: matches_def deleteTodo_def totalCount_def two_tasks_def milk_def bread_def)

text \<open>
  C5 as the specification states it fails: in \<open>same_tick\<close> two tasks carry the id
  1700000000000, and deleting that id takes the count from 3 to 1.
\<close>

theorem deleteTodo_removes_two:
  "matches 1700000000000 same_tick = [milk, eggs] \<and>
   totalCount same_tick = 3 \<and>
   totalCount (deleteTodo 1700000000000 same_tick) = 1 \<and>
   totalCount (deleteTodo 1700000000000 same_tick) \<noteq> totalCount same_tick - 1"
  by (simp add: matches_def deleteTodo_def totalCount_def same_tick_def milk_def bread_def eggs_def)

text \<open>
  C6. \<^verbatim>\<open>editTodo\<close> keeps the length; at every position the task is the old one with
  the new text when its id matches and the old one otherwise, so the ids, the completed
  flags and the creation stamps stay as they were. Any text is accepted, the empty one
  too. With no matching id the state is unchanged.
\<close>

theorem editTodo_frame:
  "length (todos (editTodo i newText st)) = length (todos st) \<and>
   (\<forall>k < length (todos st).
      todos (editTodo i newText st) ! k =
        (if id_of (todos st ! k) = i then (todos st ! k)\<lparr>text_of := newText\<rparr> else todos st ! k)) \<and>
   map id_of (todos (editTodo i newText st)) = map id_of (todos st) \<and>
   map completed (todos (editTodo i newText st)) = map completed (todos st) \<and>
   map createdAt (todos (editTodo i newText st)) = map createdAt (todos st) \<and>
   inputValue (editTodo i newText st) = inputValue st \<and>
   (matches i st = [] \<longrightarrow> editTodo i newText st = st)"
proof (intro conjI allI impI)
  show "length (todos (editTodo i newText st)) = length (todos st)"
    by (simp add: editTodo_def)
  show "map id_of (todos (editTodo i newText st)) = map id_of (todos st)"
    by (simp add: editTodo_def)
  show "map completed (todos (editTodo i newText st)) = map completed (todos st)"
    by (simp add: editTodo_def)
  show "map createdAt (todos (editTodo i newText st)) = map createdAt (todos st)"
    by (simp add: editTodo_def)
  show "inputValue (editTodo i newText st) = inputValue st"
    by (simp add: editTodo_def)
next
  fix k assume "k < length (todos st)"
  then show "todos (editTodo i newText st) ! k =
        (if id_of (todos st ! k) = i then (todos st ! k)\<lparr>text_of := newText\<rparr> else todos st ! k)"
    by (simp add: editTodo_def)
next
  assume "matches i st = []"
  then have "\<forall>todo \<in> set (todos st). id_of todo \<noteq> i"
    by (simp add: matches_def filter_empty_conv)
  then show "editTodo i newText st = st"
    by (simp add: editTodo_def map_unmatched)
qed

theorem editTodo_frame_witness:
  "(0::nat) < length (todos two_tasks) \<and>
   todos (editTodo 1700000000000 [] two_tasks) = [milk\<lparr>text_of := []\<rparr>, bread] \<and>
   todos (editTodo 1700000000000 [] two_tasks) ! 0 = milk\<lparr>text_of := []\<rparr> \<and>
   matches 7 two_tasks = [] \<and> editTodo 7 (lit ''x'') two_tasks = two_tasks"
  using editTodo_frame [of 1700000000000 "[]" two_tasks] editTodo_frame [of 7 "lit ''x''" two_tasks]
  by (simp add: matches_def editTodo_def two_tasks_def milk_def bread_def)

text \<open>
  C7. The total is the number of tasks, the completed count is the number of positions
  that hold a completed task, and the remaining count is their difference; so the two
  parts add up to the total and each lies between zero and the total.
\<close>

theorem counts_consistent:
  "totalCount st = int (length (todos st)) \<and>
   completedCount st = int (card {k. k < length (todos st) \<and> completed (todos st ! k)}) \<and>
   remainingCount st = totalCount st - completedCount st \<and>
   completedCount st + remainingCount st = totalCount st \<and>
   0 \<le> completedCount st \<and> completedCount st \<le> totalCount st \<and>
   0 \<le> remainingCount st \<and> remainingCount st \<le> totalCount st"
proof -
  have "length (filter completed (todos st)) \<le> length (todos st)"
    by (rule length_filter_le)
  then show ?thesis
    by (simp add: totalCount_def completedCount_def remainingCount_def length_filter_conv_card)
qed

text \<open>
  The scenario of the specification: add "Buy milk", toggle it, edit it, delete it.
\<close>

lemma scenario_counts:
  "totalCount (addTodo 1700000000000 s (handleInputChange (lit ''Buy milk'') initial)) = 1 \<and>
   completedCount (addTodo 1700000000000 s (handleInputChange (lit ''Buy milk'') initial)) = 0 \<and>
   remainingCount (addTodo 1700000000000 s (handleInputChange (lit ''Buy milk'') initial)) = 1 \<and>
   completedCount (toggleTodo 1700000000000
      (addTodo 1700000000000 s (handleInputChange (lit ''Buy milk'') initial))) = 1 \<and>
   remainingCount (toggleTodo 1700000000000
      (addTodo 1700000000000 s (handleInputChange (lit ''Buy milk'') initial))) = 0 \<and>
   todos (editTodo 1700000000000 (lit ''Buy oat milk'') (toggleTodo 1700000000000
      (addTodo 1700000000000 s (handleInputChange (lit ''Buy milk'') initial)))) =
     [\<lparr>id_of = 1700000000000, text_of = lit ''Buy oat milk'', completed = True, createdAt = s\<rparr>] \<and>
   totalCount (deleteTodo 1700000000000 (editTodo 1700000000000 (lit ''Buy oat milk'')
      (toggleTodo 1700000000000
        (addTodo 1700000000000 s (handleInputChange (lit ''Buy milk'') initial))))) = 0"
  by (simp add: addTodo_def handleInputChange_def initial_def toggleTodo_def editTodo_def
      deleteTodo_def totalCount_def completedCount_def remainingCount_def lit_def)

lemma filter_id_map:
  "(\<And>x. id_of (f x) = id_of x) \<Longrightarrow>
   filter (\<lambda>todo. id_of todo = i) (map (\<lambda>todo. if id_of todo = i then f todo else todo) xs) =
   map f (filter (\<lambda>todo. id_of todo = i) xs)"
  by (induction xs) auto

text \<open>
  C9. Toggling and editing keep the length and the sequence of ids; deleting keeps the
  remaining tasks in their order (the result is the old list with the matches left out);
  adding puts the new task behind the old ones.
\<close>

theorem order_preserved:
  "length (todos (toggleTodo i st)) = length (todos st) \<and>
   map id_of (todos (toggleTodo i st)) = map id_of (todos st) \<and>
   length (todos (editTodo i newText st)) = length (todos st) \<and>
   map id_of (todos (editTodo i newText st)) = map id_of (todos st) \<and>
   todos (deleteTodo i st) = filter (\<lambda>todo. id_of todo \<noteq> i) (todos st) \<and>
   subseq (todos (deleteTodo i st)) (todos st) \<and>
   prefix (todos st) (todos (addTodo now stamp st))"
proof (intro conjI)
  show "map id_of (todos (toggleTodo i st)) = map id_of (todos st)"
    by (simp add: toggleTodo_def)
  show "map id_of (todos (editTodo i newText st)) = map id_of (todos st)"
    by (simp add: editTodo_def)
  show "subseq (todos (deleteTodo i st)) (todos st)"
    by (simp add: deleteTodo_def)
  show "prefix (todos st) (todos (addTodo now stamp st))"
    by (simp add: addTodo_def Let_def)
qed (simp_all add: toggleTodo_def editTodo_def deleteTodo_def)

text \<open>
  C10. When two or more tasks carry the same id, \<^verbatim>\<open>deleteTodo\<close> removes all of them
  (the count drops by their number, hence by at least two), \<^verbatim>\<open>toggleTodo\<close> flips the
  flag of each of them and \<^verbatim>\<open>editTodo\<close> replaces the text of each of them.
\<close>

theorem shared_id_all_matches:
  assumes "2 \<le> length (matches i st)"
  shows "matches i (deleteTodo i st) = [] \<and>
         length (todos (deleteTodo i st)) + length (matches i st) = length (todos st) \<and>
         length (todos (deleteTodo i st)) + 2 \<le> length (todos st) \<and>
         matches i (toggleTodo i st) = map (\<lambda>todo. todo\<lparr>completed := \<not> completed todo\<rparr>) (matches i st) \<and>
         matches i (editTodo i newText st) = map (\<lambda>todo. todo\<lparr>text_of := newText\<rparr>) (matches i st)"
proof (intro conjI)
  show "matches i (deleteTodo i st) = []"
    by (simp add: matches_def deleteTodo_def filter_empty_conv)
  show count: "length (todos (deleteTodo i st)) + length (matches i st) = length (todos st)"
    using length_filter_split [of "\<lambda>todo. id_of todo = i" "todos st"]
    by (simp add: matches_def deleteTodo_def)
  show "length (todos (deleteTodo i st)) + 2 \<le> length (todos st)"
    using count assms by linarith
  show "matches i (toggleTodo i st) = map (\<lambda>todo. todo\<lparr>completed := \<not> completed todo\<rparr>) (matches i st)"
    by (simp add: matches_def toggleTodo_def filter_id_map)
  show "matches i (editTodo i newText st) = map (\<lambda>todo. todo\<lparr>text_of := newText\<rparr>) (matches i st)"
    by (simp add: matches_def editTodo_def filter_id_map)
qed

theorem shared_id_all_matches_witness:
  "(2::nat) \<le> length (matches 1700000000000 same_tick) \<and>
   todos (deleteTodo 1700000000000 same_tick) = [bread] \<and>
   todos (toggleTodo 1700000000000 same_tick) =
     [milk\<lparr>completed := True\<rparr>, bread, eggs\<lparr>completed := False\<rparr>] \<and>
   todos (editTodo 1700000000000 (lit ''x'') same_tick) =
     [milk\<lparr>text_of := lit ''x''\<rparr>, bread, eggs\<lparr>text_of := lit ''x''\<rparr>] \<and>
   matches 1700000000000 (deleteTodo 1700000000000 same_tick) = []"
  using shared_id_all_matches [of 1700000000000 same_tick "lit ''x''"]
  by (simp add: matches_def deleteTodo_def toggleTodo_def editTodo_def same_tick_def
      milk_def bread_def eggs_def)

text \<open>
  C8. The id of a new task is the clock reading, and nothing compares it with the ids
  already present. Two additions that read the same millisecond give two tasks with one
  id; the state \<open>same_tick\<close> arises this way.
\<close>

theorem addTodo_same_clock_duplicate_id:
  "map id_of (todos
     (addTodo 1700000000000 (lit ''2023-11-14T22:13:20.000Z'') (handleInputChange (lit ''Buy eggs'')
       (addTodo 1700000000000 (lit ''2023-11-14T22:13:20.000Z'')
         (handleInputChange (lit ''Buy milk'') initial))))) =
     [1700000000000, 1700000000000] \<and>
   \<not> distinct (map id_of (todos
     (addTodo 1700000000000 (lit ''2023-11-14T22:13:20.000Z'') (handleInputChange (lit ''Buy eggs'')
       (addTodo 1700000000000 (lit ''2023-11-14T22:13:20.000Z'')
         (handleInputChange (lit ''Buy milk'') initial))))))"
  by (simp add: addTodo_def handleInputChange_def initial_def lit_def)

text \<open>What does hold: an addition keeps the ids distinct when the clock reading is new.\<close>

lemma addTodo_fresh_distinct:
  "distinct (map id_of (todos st)) \<Longrightarrow> now \<notin> id_of ` set (todos st) \<Longrightarrow>
   distinct (map id_of (todos (addTodo now stamp st)))"
  by (simp add: addTodo_def Let_def)

lemma other_operations_distinct:
  "distinct (map id_of (todos st)) \<Longrightarrow>
   distinct (map id_of (todos (toggleTodo i st))) \<and>
   distinct (map id_of (todos (editTodo i newText st))) \<and>
   distinct (map id_of (todos (deleteTodo i st)))"
proof -
  assume d: "distinct (map id_of (todos st))"
  have "map id_of (todos (toggleTodo i st)) = map id_of (todos st)"
    by (simp add: toggleTodo_def)
  moreover have "map id_of (todos (editTodo i newText st)) = map id_of (todos st)"
    by (simp add: editTodo_def)
  moreover have "distinct (map id_of (todos (deleteTodo i st)))"
    using d by (simp add: deleteTodo_def distinct_map_filter)
  ultimately show ?thesis using d by simp
qed

section \<open>Properties of the JSON text and of persistence\<close>

subsection \<open>Reading back what was written\<close>

lemma nibbles:
  fixes n :: nat
  shows "4096 * (n div 4096) + 256 * (n div 256 mod 16) + 16 * (n div 16 mod 16) + n mod 16 = n"
proof -
  define q1 where "q1 = n div 16"
  define r0 where "r0 = n mod 16"
  define q2 where "q2 = q1 div 16"
  define r1 where "r1 = q1 mod 16"
  define q3 where "q3 = q2 div 16"
  define r2 where "r2 = q2 mod 16"
  have a: "n = 16 * q1 + r0" by (simp add: q1_def r0_def)
  have b: "q1 = 16 * q2 + r1" by (simp add: q2_def r1_def)
  have c: "q2 = 16 * q3 + r2" by (simp add: q3_def r2_def)
  have q2: "n div 256 = q2"
    using div_mult2_eq [of n 16 16] by (simp add: q2_def q1_def)
  have q3: "n div 4096 = q3"
    using div_mult2_eq [of n 256 16] by (simp add: q3_def q2 [symmetric])
  have "4096 * q3 + 256 * r2 + 16 * r1 + r0 = n"
    using a b c by linarith
  then show ?thesis
    by (simp only: q2 q3 r2_def [symmetric] r1_def [symmetric] q1_def [symmetric] r0_def [symmetric])
qed

lemma hex_val_hex_digit: "d < 16 \<Longrightarrow> hex_val (hex_digit d) = Some d"
proof -
  assume "d < 16"
  then have "d = 0 \<or> d = 1 \<or> d = 2 \<or> d = 3 \<or> d = 4 \<or> d = 5 \<or> d = 6 \<or> d = 7 \<or> d = 8 \<or>
    d = 9 \<or> d = 10 \<or> d = 11 \<or> d = 12 \<or> d = 13 \<or> d = 14 \<or> d = 15" by arith
  then show ?thesis
    by (elim disjE) (simp_all add: hex_digit_def hex_val_def)
qed

lemma hex4_unicode_escape:
  "hex4 (hex_digit (unat c div 4096)) (hex_digit (unat c div 256 mod 16))
        (hex_digit (unat c div 16 mod 16)) (hex_digit (unat c mod 16)) = Some c"
proof -
  have "unat c < 16 * 4096" using unsigned_less [of c] by simp
  then have "unat c div 4096 < 16" by (rule less_mult_imp_div_less)
  then show ?thesis
    by (simp add: hex4_def hex_val_hex_digit nibbles)
qed

lemma surrogate_plain:
  "is_lead c \<or> is_trail c \<Longrightarrow> c \<noteq> 0x22 \<and> c \<noteq> 0x5C \<and> \<not> c < 0x20"
  by (auto simp: is_lead_def is_trail_def word_le_nat_alt word_less_nat_alt)

lemma parse_chars_unicode_escape:
  "parse_chars (unicode_escape c @ r) = cons_unit c (parse_chars r)"
  by (simp add: unicode_escape_def hex4_unicode_escape)

lemma parse_chars_plain:
  "c \<noteq> 0x22 \<Longrightarrow> c \<noteq> 0x5C \<Longrightarrow> \<not> c < 0x20 \<Longrightarrow>
   parse_chars (c # r) = cons_unit c (parse_chars r)"
  by simp

lemma parse_chars_quote_unit:
  "parse_chars (quote_unit c @ r) = cons_unit c (parse_chars r)"
proof -
  consider "c = 0x08" | "c = 0x09" | "c = 0x0A" | "c = 0x0C" | "c = 0x0D" | "c = 0x22" | "c = 0x5C"
    | "c \<notin> {0x08, 0x09, 0x0A, 0x0C, 0x0D, 0x22, 0x5C}" "c < 0x20 \<or> is_lead c \<or> is_trail c"
    | "c \<notin> {0x08, 0x09, 0x0A, 0x0C, 0x0D, 0x22, 0x5C}" "\<not> (c < 0x20 \<or> is_lead c \<or> is_trail c)"
    by blast
  then show ?thesis
  proof cases
    case 8
    then have "quote_unit c = unicode_escape c" by (simp add: quote_unit_def)
    then show ?thesis by (simp only: parse_chars_unicode_escape)
  next
    case 9
    then have "quote_unit c = [c]" by (simp add: quote_unit_def)
    with 9 show ?thesis by simp
  qed (simp_all add: quote_unit_def unescape_def)
qed

lemma parse_chars_close: "parse_chars (0x22 # r) = Inr ([], r)"
  by simp

lemma parse_chars_quote_chars:
  "parse_chars (quote_chars s @ 0x22 # r) = Inr (s, r)"
proof (induction s rule: quote_chars.induct)
  case 1
  show ?case by simp
next
  case (2 c)
  show ?case by (simp add: parse_chars_quote_unit parse_chars_close cons_unit_def del: parse_chars.simps(2))
next
  case (3 c d cs)
  show ?case
  proof (cases "is_lead c \<and> is_trail d")
    case True
    then have q: "quote_chars (c # d # cs) = c # d # quote_chars cs" by simp
    from True have "parse_chars (c # d # quote_chars cs @ 0x22 # r) =
        cons_unit c (cons_unit d (parse_chars (quote_chars cs @ 0x22 # r)))"
      using surrogate_plain [of c] surrogate_plain [of d] by (simp add: parse_chars_plain del: parse_chars.simps(2))
    with True 3 q show ?thesis by (simp add: cons_unit_def del: parse_chars.simps(2))
  next
    case False
    then have q: "quote_chars (c # d # cs) = quote_unit c @ quote_chars (d # cs)" by auto
    from False 3 have "parse_chars (quote_chars (d # cs) @ 0x22 # r) = Inr (d # cs, r)" by blast
    then show ?thesis
      by (simp add: q parse_chars_quote_unit cons_unit_def del: parse_chars.simps(2) quote_chars.simps)
  qed
qed

lemma parse_QuoteJSONString:
  "parse_chars (tl (QuoteJSONString s) @ r) = Inr (s, r)"
  by (simp add: QuoteJSONString_def parse_chars_quote_chars)

lemma digit_unit:
  "d < 10 \<Longrightarrow> is_digit (of_nat (48 + d)) \<and> unat (of_nat (48 + d) :: 16 word) - 48 = d \<and>
     ((of_nat (48 + d) :: 16 word) = 0x30 \<longleftrightarrow> d = 0)"
proof -
  assume "d < 10"
  then have "d = 0 \<or> d = 1 \<or> d = 2 \<or> d = 3 \<or> d = 4 \<or> d = 5 \<or> d = 6 \<or> d = 7 \<or> d = 8 \<or> d = 9"
    by arith
  then show ?thesis
    by (elim disjE) (simp_all add: is_digit_def)
qed

lemma nat_digits_nonempty: "nat_digits n \<noteq> []"
  by (subst nat_digits.simps) simp

lemma nat_digits_all_digits: "\<forall>c \<in> set (nat_digits n). is_digit c"
proof (induction n rule: nat_digits.induct)
  case (1 n)
  show ?case
  proof (cases "n < 10")
    case True
    then show ?thesis
      using digit_unit [of n] by (subst nat_digits.simps) simp
  next
    case False
    have "n mod 10 < 10" by simp
    with False 1 show ?thesis
      using digit_unit [of "n mod 10"] by (subst nat_digits.simps) simp
  qed
qed

lemma digits_val_snoc: "digits_val (ds @ [c]) = 10 * digits_val ds + (unat c - 48)"
  by (simp add: digits_val_def)

lemma digits_val_nat_digits: "digits_val (nat_digits n) = n"
proof (induction n rule: nat_digits.induct)
  case (1 n)
  show ?case
  proof (cases "n < 10")
    case True
    then show ?thesis
      using digit_unit [of n] by (subst nat_digits.simps) (simp add: digits_val_def)
  next
    case False
    have "n mod 10 < 10" by simp
    with False 1 show ?thesis
      using digit_unit [of "n mod 10"] by (subst nat_digits.simps) (simp add: digits_val_snoc)
  qed
qed

lemma nat_digits_zero: "nat_digits 0 = [0x30]"
  by (subst nat_digits.simps) simp

lemma nat_digits_no_leading_zero: "0 < n \<Longrightarrow> hd (nat_digits n) \<noteq> 0x30"
proof (induction n rule: nat_digits.induct)
  case (1 n)
  show ?case
  proof (cases "n < 10")
    case True
    with 1(2) show ?thesis
      using digit_unit [of n] by (subst nat_digits.simps) simp
  next
    case False
    then have "0 < n div 10" by simp
    with False 1 have "hd (nat_digits (n div 10)) \<noteq> 0x30" by blast
    with False show ?thesis
      by (subst nat_digits.simps) (simp add: nat_digits_nonempty)
  qed
qed

lemma takeWhile_nat_digits: "takeWhile is_digit (nat_digits n @ 0x2C # r) = nat_digits n"
  using nat_digits_all_digits [of n] by (simp add: is_digit_def)

lemma dropWhile_nat_digits: "dropWhile is_digit (nat_digits n @ 0x2C # r) = 0x2C # r"
  using nat_digits_all_digits [of n] by (simp add: is_digit_def)

lemma parse_int_part_nat_digits:
  "parse_int_part (nat_digits n @ 0x2C # r) = Inr (n, 0x2C # r)"
proof (cases "n = 0")
  case True
  then show ?thesis by (simp add: nat_digits_zero parse_int_part_def)
next
  case False
  obtain c cs where cs: "nat_digits n = c # cs"
    using nat_digits_nonempty [of n] by (cases "nat_digits n") auto
  from False have "hd (nat_digits n) \<noteq> 0x30" by (simp add: nat_digits_no_leading_zero)
  with cs have c0: "c \<noteq> 0x30" by simp
  from cs have cd: "is_digit c" using nat_digits_all_digits [of n] by simp
  have "parse_int_part (c # (cs @ 0x2C # r)) =
          Inr (digits_val (takeWhile is_digit (c # (cs @ 0x2C # r))),
               dropWhile is_digit (c # (cs @ 0x2C # r)))"
    using c0 cd by (simp add: parse_int_part_def)
  moreover have "c # (cs @ 0x2C # r) = nat_digits n @ 0x2C # r" by (simp add: cs)
  ultimately show ?thesis
    by (simp only: takeWhile_nat_digits dropWhile_nat_digits digits_val_nat_digits)
qed

lemma parse_unsigned_nat_digits:
  "parse_unsigned (nat_digits n @ 0x2C # r) = Inr (of_nat n, 0x2C # r)"
  by (simp add: parse_unsigned_def parse_int_part_nat_digits parse_frac_def parse_exp_def)

lemma parse_number_NumberToString:
  "parse_number (NumberToString n @ 0x2C # r) = Inr (of_int n, 0x2C # r)"
proof (cases "n < 0")
  case True
  then show ?thesis
    by (simp add: NumberToString_def parse_number_def parse_unsigned_nat_digits)
next
  case False
  obtain c cs where cs: "nat_digits (nat n) = c # cs"
    using nat_digits_nonempty [of "nat n"] by (cases "nat_digits (nat n)") auto
  then have "is_digit c" using nat_digits_all_digits [of "nat n"] by simp
  then have "c \<noteq> 0x2D" by (auto simp: is_digit_def)
  then have "parse_number (c # (cs @ 0x2C # r)) = parse_unsigned (c # (cs @ 0x2C # r))"
    by (simp add: parse_number_def)
  moreover have "c # (cs @ 0x2C # r) = nat_digits (nat n) @ 0x2C # r" by (simp add: cs)
  ultimately have "parse_number (nat_digits (nat n) @ 0x2C # r) = Inr (of_nat (nat n), 0x2C # r)"
    by (simp only: parse_unsigned_nat_digits)
  with False show ?thesis by (simp add: NumberToString_def)
qed

lemma NumberToString_first:
  "\<exists>c cs. NumberToString n = c # cs \<and> (c = 0x2D \<or> is_digit c)"
proof (cases "n < 0")
  case True
  then show ?thesis by (simp add: NumberToString_def)
next
  case False
  obtain c cs where cs: "nat_digits (nat n) = c # cs"
    using nat_digits_nonempty [of "nat n"] by (cases "nat_digits (nat n)") auto
  then have "is_digit c" using nat_digits_all_digits [of "nat n"] by simp
  with False cs show ?thesis by (simp add: NumberToString_def)
qed

lemma parse_value_NumberToString:
  "parse_value (Suc k) (NumberToString n @ 0x2C # r) = Inr (JNum (of_int n), 0x2C # r)"
proof -
  obtain c cs where cs: "NumberToString n = c # cs" and c: "c = 0x2D \<or> is_digit c"
    using NumberToString_first [of n] by blast
  from c have "c \<noteq> 0x7B \<and> c \<noteq> 0x5B \<and> c \<noteq> 0x22 \<and> c \<noteq> 0x74 \<and> c \<noteq> 0x66 \<and> c \<noteq> 0x6E"
    by (auto simp: is_digit_def)
  then have "parse_value (Suc k) (c # (cs @ 0x2C # r)) =
      (case parse_number (c # (cs @ 0x2C # r)) of
           Inl e \<Rightarrow> Inl e
         | Inr (q, r) \<Rightarrow> Inr (JNum q, r))"
    by simp
  moreover have "c # (cs @ 0x2C # r) = NumberToString n @ 0x2C # r" by (simp add: cs)
  ultimately show ?thesis
    by (simp add: parse_number_NumberToString)
qed

lemma skip_ws_NumberToString: "skip_ws (NumberToString n @ r) = NumberToString n @ r"
proof -
  obtain c cs where cs: "NumberToString n = c # cs" and c: "c = 0x2D \<or> is_digit c"
    using NumberToString_first [of n] by blast
  from c have "\<not> is_ws c" by (auto simp: is_digit_def is_ws_def)
  then show ?thesis by (simp add: cs skip_ws_def)
qed

lemma parse_value_BooleanToString:
  "parse_value (Suc k) (BooleanToString b @ r) = Inr (JBool b, r)"
  by (simp add: BooleanToString_def lit_def expect_word_def)

lemma skip_ws_BooleanToString: "skip_ws (BooleanToString b @ r) = BooleanToString b @ r"
  by (simp add: BooleanToString_def lit_def skip_ws_def is_ws_def)

lemma skip_ws_punct:
  "skip_ws (0x22 # r) = 0x22 # r" "skip_ws (0x2C # r) = 0x2C # r" "skip_ws (0x3A # r) = 0x3A # r"
  "skip_ws (0x5B # r) = 0x5B # r" "skip_ws (0x5D # r) = 0x5D # r"
  "skip_ws (0x7B # r) = 0x7B # r" "skip_ws (0x7D # r) = 0x7D # r"
  by (simp_all add: skip_ws_def is_ws_def)

lemma parse_value_string:
  "parse_value (Suc k) (QuoteJSONString s @ r) = Inr (JStr s, r)"
  by (simp add: QuoteJSONString_def parse_chars_quote_chars)

lemma parse_members_last:
  "parse_members (Suc (Suc k)) (QuoteJSONString key @ 0x3A # QuoteJSONString s @ 0x7D # r) =
     Inr ([(key, JStr s)], r)"
  by (simp add: QuoteJSONString_def parse_chars_quote_chars skip_ws_punct)

lemma skip_ws_QuoteJSONString: "skip_ws (QuoteJSONString s @ r) = QuoteJSONString s @ r"
  by (simp add: QuoteJSONString_def skip_ws_punct)

lemma parse_members_string:
  assumes "parse_members n rest = Inr (ms, r)"
  shows "parse_members (Suc n) (QuoteJSONString key @ 0x3A # QuoteJSONString s @ 0x2C # rest) =
           Inr ((key, JStr s) # ms, r)"
proof (cases n)
  case 0
  with assms show ?thesis by simp
next
  case (Suc k)
  have "parse_members (Suc n) (QuoteJSONString key @ 0x3A # QuoteJSONString s @ 0x2C # rest) =
        (case parse_value n (skip_ws (QuoteJSONString s @ 0x2C # rest)) of
           Inl e \<Rightarrow> Inl e
         | Inr (v, r3) \<Rightarrow>
             (case skip_ws r3 of
                [] \<Rightarrow> Inl SyntaxError
              | d # r4 \<Rightarrow>
                  if d = 0x2C then
                    (case parse_members n r4 of
                       Inl e \<Rightarrow> Inl e
                     | Inr (ms, r5) \<Rightarrow> Inr ((key, v) # ms, r5))
                  else if d = 0x7D then Inr ([(key, v)], r4)
                  else Inl SyntaxError))"
    by (simp add: QuoteJSONString_def parse_chars_quote_chars skip_ws_punct)
  with Suc assms show ?thesis
    by (simp add: skip_ws_QuoteJSONString parse_value_string skip_ws_punct
          del: parse_members.simps(2) parse_value.simps)
qed

lemma parse_members_boolean:
  assumes "parse_members n rest = Inr (ms, r)"
  shows "parse_members (Suc n) (QuoteJSONString key @ 0x3A # BooleanToString b @ 0x2C # rest) =
           Inr ((key, JBool b) # ms, r)"
proof (cases n)
  case 0
  with assms show ?thesis by simp
next
  case (Suc k)
  have "parse_members (Suc n) (QuoteJSONString key @ 0x3A # BooleanToString b @ 0x2C # rest) =
        (case parse_value n (skip_ws (BooleanToString b @ 0x2C # rest)) of
           Inl e \<Rightarrow> Inl e
         | Inr (v, r3) \<Rightarrow>
             (case skip_ws r3 of
                [] \<Rightarrow> Inl SyntaxError
              | d # r4 \<Rightarrow>
                  if d = 0x2C then
                    (case parse_members n r4 of
                       Inl e \<Rightarrow> Inl e
                     | Inr (ms, r5) \<Rightarrow> Inr ((key, v) # ms, r5))
                  else if d = 0x7D then Inr ([(key, v)], r4)
                  else Inl SyntaxError))"
    by (simp add: QuoteJSONString_def parse_chars_quote_chars skip_ws_punct)
  with Suc assms show ?thesis
    by (simp add: skip_ws_BooleanToString parse_value_BooleanToString skip_ws_punct
          del: parse_members.simps(2) parse_value.simps)
qed

lemma parse_members_number:
  assumes "parse_members n rest = Inr (ms, r)"
  shows "parse_members (Suc n) (QuoteJSONString key @ 0x3A # NumberToString i @ 0x2C # rest) =
           Inr ((key, JNum (of_int i)) # ms, r)"
proof (cases n)
  case 0
  with assms show ?thesis by simp
next
  case (Suc k)
  have "parse_members (Suc n) (QuoteJSONString key @ 0x3A # NumberToString i @ 0x2C # rest) =
        (case parse_value n (skip_ws (NumberToString i @ 0x2C # rest)) of
           Inl e \<Rightarrow> Inl e
         | Inr (v, r3) \<Rightarrow>
             (case skip_ws r3 of
                [] \<Rightarrow> Inl SyntaxError
              | d # r4 \<Rightarrow>
                  if d = 0x2C then
                    (case parse_members n r4 of
                       Inl e \<Rightarrow> Inl e
                     | Inr (ms, r5) \<Rightarrow> Inr ((key, v) # ms, r5))
                  else if d = 0x7D then Inr ([(key, v)], r4)
                  else Inl SyntaxError))"
    by (simp add: QuoteJSONString_def parse_chars_quote_chars skip_ws_punct)
  with Suc assms show ?thesis
    by (simp add: skip_ws_NumberToString parse_value_NumberToString skip_ws_punct
          del: parse_members.simps(2) parse_value.simps)
qed

lemma parse_value_object:
  assumes "parse_members n (QuoteJSONString key @ rest) = Inr (ms, r)"
  shows "parse_value (Suc n) (0x7B # QuoteJSONString key @ rest) = Inr (JObj ms, r)"
  using assms by (simp add: QuoteJSONString_def skip_ws_punct)

lemma stringify_todo_unfold:
  "stringify_todo todo @ r =
     0x7B # QuoteJSONString (lit ''id'') @ 0x3A # NumberToString (id_of todo) @
     0x2C # QuoteJSONString (lit ''text'') @ 0x3A # QuoteJSONString (text_of todo) @
     0x2C # QuoteJSONString (lit ''completed'') @ 0x3A # BooleanToString (completed todo) @
     0x2C # QuoteJSONString (lit ''createdAt'') @ 0x3A # QuoteJSONString (createdAt todo) @
     0x7D # r"
  by (simp add: stringify_todo_def)

lemma parse_value_stringify_todo:
  "parse_value (Suc (Suc (Suc (Suc (Suc (Suc k)))))) (stringify_todo todo @ r) =
     Inr (json_of_todo todo, r)"
proof -
  have m4: "parse_members (Suc (Suc k))
      (QuoteJSONString (lit ''createdAt'') @ 0x3A # QuoteJSONString (createdAt todo) @ 0x7D # r) =
      Inr ([(lit ''createdAt'', JStr (createdAt todo))], r)"
    by (rule parse_members_last)
  note m3 = parse_members_boolean [OF m4, of "lit ''completed''" "completed todo"]
  note m2 = parse_members_string [OF m3, of "lit ''text''" "text_of todo"]
  note m1 = parse_members_number [OF m2, of "lit ''id''" "id_of todo"]
  show ?thesis
    unfolding stringify_todo_unfold json_of_todo_def
    by (rule parse_value_object [OF m1])
qed

lemma parse_value_stringify_todo_fuel:
  "6 \<le> n \<Longrightarrow> parse_value n (stringify_todo todo @ r) = Inr (json_of_todo todo, r)"
proof -
  assume "6 \<le> n"
  then have "n = Suc (Suc (Suc (Suc (Suc (Suc (n - 6))))))" by arith
  then show ?thesis using parse_value_stringify_todo [of "n - 6" todo r] by simp
qed

lemma stringify_todo_first: "\<exists>cs. stringify_todo todo = 0x7B # cs"
  by (simp add: stringify_todo_def)

lemma skip_ws_stringify_todo: "skip_ws (stringify_todo todo @ r) = stringify_todo todo @ r"
  by (simp add: stringify_todo_def skip_ws_punct)

lemma parse_elements_todos:
  "ts \<noteq> [] \<Longrightarrow> length ts + 6 \<le> n \<Longrightarrow>
   parse_elements n (join_comma (map stringify_todo ts) @ 0x5D # r) = Inr (map json_of_todo ts, r)"
proof (induction ts arbitrary: n)
  case Nil
  then show ?case by simp
next
  case (Cons t ts)
  from Cons.prems obtain m where n: "n = Suc m" and m: "6 \<le> m" "length ts + 6 \<le> m"
    by (cases n) auto
  show ?case
  proof (cases ts)
    case Nil
    then show ?thesis
      using m by (simp add: n skip_ws_stringify_todo parse_value_stringify_todo_fuel skip_ws_punct)
  next
    case (Cons u us)
    then have ih: "parse_elements m (join_comma (map stringify_todo ts) @ 0x5D # r) =
        Inr (map json_of_todo ts, r)"
      using Cons.IH [of m] m by simp
    have "parse_elements (Suc m) (stringify_todo t @ 0x2C # join_comma (map stringify_todo ts) @ 0x5D # r) =
        Inr (json_of_todo t # map json_of_todo ts, r)"
      using m ih
      by (simp add: skip_ws_stringify_todo parse_value_stringify_todo_fuel skip_ws_punct)
    with Cons show ?thesis by (simp add: n)
  qed
qed

lemma length_join_comma: "2 * length ts \<le> length (join_comma (map stringify_todo ts))"
proof (induction ts)
  case Nil
  show ?case by simp
next
  case (Cons t ts)
  have "2 \<le> length (stringify_todo t)" by (simp add: stringify_todo_def)
  with Cons show ?case by (cases ts) auto
qed

lemma skip_ws_nil: "skip_ws [] = []"
  by (simp add: skip_ws_def)

lemma parse_value_empty_array: "parse_value (Suc k) [0x5B, 0x5D] = Inr (JArr [], [])"
  by (simp add: skip_ws_punct)

lemma JSON_parse_stringify:
  "JSON_parse (JSON_stringify ts) = Inr (json_of_todos ts)"
proof (cases ts)
  case Nil
  have "fuel [0x5B, 0x5D] = Suc 4" by (simp add: fuel_def)
  then have "parse_value (fuel [0x5B, 0x5D]) [0x5B, 0x5D] = Inr (JArr [], [])"
    by (simp only: parse_value_empty_array)
  then show ?thesis
    using Nil
    by (simp add: JSON_parse_def JSON_stringify_def json_of_todos_def skip_ws_punct skip_ws_nil
          del: parse_value.simps)
next
  case (Cons t us)
  obtain cs where cs: "stringify_todo t = 0x7B # cs"
    using stringify_todo_first by blast
  define body where "body = join_comma (map stringify_todo ts)"
  have first: "\<exists>rest. body @ [0x5D] = 0x7B # rest"
    using Cons cs by (cases us) (simp_all add: body_def)
  then obtain rest where rest: "body @ [0x5D] = 0x7B # rest" by blast
  have len: "length ts + 6 \<le> 2 * length (0x5B # body @ [0x5D])"
    using length_join_comma [of ts] Cons by (simp add: body_def)
  have el: "parse_elements (2 * length (0x5B # body @ [0x5D])) (body @ 0x5D # []) =
      Inr (map json_of_todo ts, [])"
    unfolding body_def using Cons len by (intro parse_elements_todos) (simp_all add: body_def)
  have "parse_value (Suc (2 * length (0x5B # body @ [0x5D]))) (0x5B # 0x7B # rest) =
      Inr (JArr (map json_of_todo ts), [])"
    using el rest by (simp add: skip_ws_punct del: parse_elements.simps)
  then have "parse_value (fuel (0x5B # body @ [0x5D])) (0x5B # body @ [0x5D]) =
      Inr (JArr (map json_of_todo ts), [])"
    by (simp add: fuel_def rest)
  then show ?thesis
    by (simp add: JSON_parse_def JSON_stringify_def json_of_todos_def skip_ws_punct body_def skip_ws_nil
         del: parse_value.simps)
qed

lemma as_todo_json_of_todo:
  "\<bar>id_of todo\<bar> \<le> 9007199254740991 \<Longrightarrow> as_todo (json_of_todo todo) = Some todo"
  by (simp add: as_todo_def json_of_todo_def)

lemma as_todo_unsafe_id:
  "\<not> \<bar>id_of todo\<bar> \<le> 9007199254740991 \<Longrightarrow> as_todo (json_of_todo todo) = None"
  by (simp add: as_todo_def json_of_todo_def)

lemma as_todos_json_of_todos: "well_formed ts \<Longrightarrow> as_todos (json_of_todos ts) = Some ts"
proof -
  assume "well_formed ts"
  then have "those (map as_todo (map json_of_todo ts)) = Some ts"
    by (induction ts) (simp_all add: well_formed_def as_todo_json_of_todo)
  then show ?thesis by (simp add: as_todos_def json_of_todos_def)
qed

lemmas nat_digits_numeral =
  nat_digits.simps [of "numeral k" for k] nat_digits.simps [of "Suc 0"] nat_digits.simps [of 0]

lemma length_JSON_stringify_milk: "length (JSON_stringify [milk]) = 97"
  by (simp add: JSON_stringify_def stringify_todo_def QuoteJSONString_def quote_unit_def
      is_lead_def is_trail_def NumberToString_def BooleanToString_def lit_def milk_def
      nat_digits_numeral)

lemma length_JSON_stringify_milk_bread: "length (JSON_stringify [milk, bread]) = 193"
  by (simp add: JSON_stringify_def stringify_todo_def QuoteJSONString_def quote_unit_def
      is_lead_def is_trail_def NumberToString_def BooleanToString_def lit_def milk_def bread_def
      nat_digits_numeral)

lemma JSON_stringify_nonempty: "JSON_stringify ts \<noteq> []"
  by (simp add: JSON_stringify_def)

lemmas parse_numeral_fuel =
  parse_value.simps(2,3) [where n = "pred_numeral k" for k, folded numeral_eq_Suc]
  parse_elements.simps(2) [where n = "pred_numeral k" for k, folded numeral_eq_Suc]
  parse_members.simps(2) [where n = "pred_numeral k" for k, folded numeral_eq_Suc]

lemma JSON_parse_empty: "JSON_parse [] = Inl SyntaxError"
  by (simp add: JSON_parse_def fuel_def skip_ws_def)

lemma JSON_parse_garbage: "JSON_parse (lit ''{nope'') = Inl SyntaxError"
  by (simp add: JSON_parse_def fuel_def skip_ws_def is_ws_def lit_def parse_numeral_fuel)

lemma JSON_stringify_example:
  "JSON_stringify [\<lparr>id_of = 42, text_of = [0x61, 0x22, 0x0A, 0xDC00], completed = True,
                     createdAt = lit ''z''\<rparr>] =
   lit ''[{'' @ [0x22] @ lit ''id'' @ [0x22] @ lit '':42,'' @
   [0x22] @ lit ''text'' @ [0x22] @ lit '':'' @
   [0x22] @ lit ''a'' @ [0x5C, 0x22] @ [0x5C] @ lit ''n'' @ [0x5C] @ lit ''udc00'' @ [0x22] @ lit '','' @
   [0x22] @ lit ''completed'' @ [0x22] @ lit '':true,'' @
   [0x22] @ lit ''createdAt'' @ [0x22] @ lit '':'' @ [0x22] @ lit ''z'' @ [0x22] @ lit ''}]''"
  by (simp add: JSON_stringify_def stringify_todo_def QuoteJSONString_def quote_unit_def
      unicode_escape_def hex_digit_def is_lead_def is_trail_def NumberToString_def
      BooleanToString_def lit_def nat_digits.simps [of 42] nat_digits.simps [of 4])

lemma JSON_parse_number: "JSON_parse (lit '' -12.50e1 '') = Inr (JNum (-125))"
  by (simp add: JSON_parse_def fuel_def skip_ws_def is_ws_def lit_def parse_numeral_fuel
      parse_number_def parse_unsigned_def parse_int_part_def parse_frac_def parse_exp_def
      parse_sign_def is_digit_def digits_val_def)

subsection \<open>The reader never runs out of fuel\<close>

text \<open>
  Every successful step of the reader consumes input, so a counter of twice the length
  of the text plus one is never used up: a failure of \<open>JSON_parse\<close> is a \<open>SyntaxError\<close>.
\<close>

lemma skip_ws_length: "length (skip_ws s) \<le> length s"
  by (simp add: skip_ws_def length_dropWhile_le)

lemma skip_ws_cons: "skip_ws s = d # r \<Longrightarrow> length r < length s"
  using skip_ws_length [of s] by simp

lemma cons_unit_Inr: "cons_unit u res = Inr (x, r) \<Longrightarrow> \<exists>y. res = Inr (y, r)"
  by (auto simp: cons_unit_def split: sum.splits)

lemma cons_unit_fuel: "cons_unit u res = Inl OutOfFuel \<Longrightarrow> res = Inl OutOfFuel"
  by (auto simp: cons_unit_def split: sum.splits)

lemma parse_chars_inv:
  "parse_chars (c # cs) = Inr (x, r) \<Longrightarrow>
     r = cs \<or> (\<exists>t y. parse_chars t = Inr (y, r) \<and> length t \<le> length cs)"
  by (force split: if_splits list.splits option.splits dest!: cons_unit_Inr)

lemma parse_chars_shorter: "parse_chars s = Inr (x, r) \<Longrightarrow> length r < length s"
proof (induction s arbitrary: x r rule: length_induct)
  case (1 s)
  show ?case
  proof (cases s)
    case Nil
    with 1 show ?thesis by simp
  next
    case (Cons c cs)
    with "1.prems" parse_chars_inv [of c cs x r] 
    have "r = cs \<or> (\<exists>t y. parse_chars t = Inr (y, r) \<and> length t \<le> length cs)" by simp
    then show ?thesis
    proof
      assume "r = cs"
      with Cons show ?thesis by simp
    next
      assume "\<exists>t y. parse_chars t = Inr (y, r) \<and> length t \<le> length cs"
      then obtain t y where t: "parse_chars t = Inr (y, r)" "length t \<le> length cs" by blast
      with Cons have "length t < length s" by simp
      with "1.IH" t have "length r < length t" by blast
      with t Cons show ?thesis by simp
    qed
  qed
qed

lemma parse_chars_inv_fuel:
  "parse_chars (c # cs) = Inl OutOfFuel \<Longrightarrow>
     (\<exists>t. parse_chars t = Inl OutOfFuel \<and> length t \<le> length cs)"
  by (force split: if_splits list.splits option.splits dest!: cons_unit_fuel)

lemma parse_chars_fuel: "parse_chars s \<noteq> Inl OutOfFuel"
proof (induction s rule: length_induct)
  case (1 s)
  show ?case
  proof (cases s)
    case Nil
    then show ?thesis by simp
  next
    case (Cons c cs)
    show ?thesis
    proof
      assume "parse_chars s = Inl OutOfFuel"
      with Cons obtain t where t: "parse_chars t = Inl OutOfFuel" "length t \<le> length cs"
        using parse_chars_inv_fuel [of c cs] by blast
      with Cons have "length t < length s" by simp
      with "1.IH" t show False by blast
    qed
  qed
qed

lemma parse_int_part_shorter: "parse_int_part s = Inr (x, r) \<Longrightarrow> length r < length s"
  by (auto simp: parse_int_part_def split: list.splits if_splits
      intro: le_imp_less_Suc length_dropWhile_le)

lemma parse_frac_shorter: "parse_frac s = Inr (x, r) \<Longrightarrow> length r \<le> length s"
  by (auto simp: parse_frac_def Let_def split: list.splits if_splits
      intro: le_SucI length_dropWhile_le)

lemma parse_sign_shorter: "parse_sign s = (b, r) \<Longrightarrow> length r \<le> length s"
  by (auto simp: parse_sign_def split: list.splits if_splits)

lemma parse_exp_shorter: "parse_exp s = Inr (x, r) \<Longrightarrow> length r \<le> length s"
proof -
  assume a: "parse_exp s = Inr (x, r)"
  show ?thesis
  proof (cases s)
    case Nil
    with a show ?thesis by (simp add: parse_exp_def)
  next
    case (Cons c cs)
    obtain b t where bt: "parse_sign cs = (b, t)" by (cases "parse_sign cs")
    then have "length t \<le> length cs" by (rule parse_sign_shorter)
    moreover have "length (dropWhile is_digit t) \<le> length t" by (rule length_dropWhile_le)
    ultimately show ?thesis
      using a Cons bt by (auto simp: parse_exp_def Let_def split: if_splits)
  qed
qed

lemma parse_unsigned_shorter: "parse_unsigned s = Inr (x, r) \<Longrightarrow> length r < length s"
  using parse_int_part_shorter parse_frac_shorter parse_exp_shorter
  by (fastforce simp: parse_unsigned_def split: sum.splits prod.splits)

lemma parse_number_shorter: "parse_number s = Inr (x, r) \<Longrightarrow> length r < length s"
  using parse_unsigned_shorter
  by (fastforce simp: parse_number_def split: list.splits if_splits sum.splits prod.splits)

lemma expect_word_shorter:
  "expect_word w v s = Inr (x, r) \<Longrightarrow> w \<noteq> [] \<Longrightarrow> length r < length s"
  by (cases w; cases s) (auto simp: expect_word_def split: if_splits)

lemma expect_word_fuel: "expect_word w v s \<noteq> Inl OutOfFuel"
  by (simp add: expect_word_def)

lemma parse_int_part_fuel: "parse_int_part s \<noteq> Inl OutOfFuel"
  by (simp add: parse_int_part_def split: list.splits)

lemma parse_frac_fuel: "parse_frac s \<noteq> Inl OutOfFuel"
  by (simp add: parse_frac_def Let_def split: list.splits)

lemma parse_exp_fuel: "parse_exp s \<noteq> Inl OutOfFuel"
  by (simp add: parse_exp_def Let_def split: list.splits prod.splits)

lemma parse_unsigned_fuel: "parse_unsigned s \<noteq> Inl OutOfFuel"
  using parse_int_part_fuel parse_frac_fuel parse_exp_fuel
  by (auto simp: parse_unsigned_def split: sum.splits prod.splits)

lemma parse_number_fuel: "parse_number s \<noteq> Inl OutOfFuel"
  using parse_unsigned_fuel
  by (auto simp: parse_number_def split: list.splits sum.splits prod.splits)

lemma skip_ws_less: "length t < length (skip_ws s) \<Longrightarrow> length t < length s"
  using skip_ws_length [of s] by simp

lemma parse_shorter:
  "(\<forall>s v r. parse_value n s = Inr (v, r) \<longrightarrow> length r < length s) \<and>
   (\<forall>s vs r. parse_elements n s = Inr (vs, r) \<longrightarrow> length r < length s) \<and>
   (\<forall>s ms r. parse_members n s = Inr (ms, r) \<longrightarrow> length r < length s)"
proof (induction n)
  case 0
  show ?case by simp
next
  case (Suc n)
  then have ihv: "\<And>s v r. parse_value n s = Inr (v, r) \<Longrightarrow> length r < length s"
    and ihe: "\<And>s vs r. parse_elements n s = Inr (vs, r) \<Longrightarrow> length r < length s"
    and ihm: "\<And>s ms r. parse_members n s = Inr (ms, r) \<Longrightarrow> length r < length s"
    by blast+
  have v: "length r < length s" if "parse_value (Suc n) s = Inr (v, r)" for s v r
  proof (cases s)
    case Nil
    with that show ?thesis by simp
  next
    case (Cons c cs)
    have ws: "length (skip_ws cs) \<le> length cs" by (rule skip_ws_length)
    from that Cons show ?thesis
      using ws
      by (auto simp: lit_def split: if_splits list.splits sum.splits prod.splits
          dest!: ihe ihm parse_chars_shorter parse_number_shorter expect_word_shorter)
  qed
  have e: "length r < length s" if "parse_elements (Suc n) s = Inr (vs, r)" for s vs r
  proof -
    have ws: "length (skip_ws s) \<le> length s" by (rule skip_ws_length)
    from that show ?thesis
      using ws
      by (auto split: if_splits list.splits sum.splits prod.splits
          dest!: ihv ihe skip_ws_cons skip_ws_less)
  qed
  have m: "length r < length s" if "parse_members (Suc n) s = Inr (ms, r)" for s ms r
  proof -
    have ws: "length (skip_ws s) \<le> length s" by (rule skip_ws_length)
    from that show ?thesis
      using ws
      by (auto split: if_splits list.splits sum.splits prod.splits
          dest!: ihv ihm skip_ws_cons parse_chars_shorter skip_ws_less)
  qed
  from v e m show ?case by blast
qed

lemma parse_value_shorter: "parse_value n s = Inr (v, r) \<Longrightarrow> length r < length s"
  using parse_shorter [of n] by blast

lemma parse_enough_fuel:
  "(\<forall>s. 2 * length s < n \<longrightarrow> parse_value n s \<noteq> Inl OutOfFuel) \<and>
   (\<forall>s. 2 * length s + 1 < n \<longrightarrow> parse_elements n s \<noteq> Inl OutOfFuel) \<and>
   (\<forall>s. 2 * length s + 1 < n \<longrightarrow> parse_members n s \<noteq> Inl OutOfFuel)"
proof (induction n)
  case 0
  show ?case by simp
next
  case (Suc n)
  then have ihv: "\<And>s. 2 * length s < n \<Longrightarrow> parse_value n s \<noteq> Inl OutOfFuel"
    and ihe: "\<And>s. 2 * length s + 1 < n \<Longrightarrow> parse_elements n s \<noteq> Inl OutOfFuel"
    and ihm: "\<And>s. 2 * length s + 1 < n \<Longrightarrow> parse_members n s \<noteq> Inl OutOfFuel"
    by blast+
  have v: "parse_value (Suc n) s \<noteq> Inl OutOfFuel" if big: "2 * length s < Suc n" for s
  proof (cases s)
    case Nil
    then show ?thesis by simp
  next
    case (Cons c cs)
    have ws: "length (skip_ws cs) \<le> length cs" by (rule skip_ws_length)
    have m': "parse_members n t \<noteq> Inl OutOfFuel" if "skip_ws cs = t" for t
      using ihm [of t] ws that big Cons by simp
    have e': "parse_elements n t \<noteq> Inl OutOfFuel" if "skip_ws cs = t" for t
      using ihe [of t] ws that big Cons by simp
    show ?thesis
      using Cons parse_chars_fuel [of cs] parse_number_fuel [of "c # cs"] m' e'
      by (auto simp: expect_word_fuel split: list.splits sum.splits prod.splits)
  qed
  have e: "parse_elements (Suc n) s \<noteq> Inl OutOfFuel" if big: "2 * length s + 1 < Suc n" for s
  proof -
    have ws: "length (skip_ws s) \<le> length s" by (rule skip_ws_length)
    with big have pv: "parse_value n (skip_ws s) \<noteq> Inl OutOfFuel"
      by (intro ihv) simp
    have pe: "parse_elements n r' \<noteq> Inl OutOfFuel"
      if "parse_value n (skip_ws s) = Inr (v, r)" "skip_ws r = d # r'" for v r d r'
    proof -
      from that(1) have "length r < length (skip_ws s)" by (rule parse_value_shorter)
      moreover from that(2) have "length r' < length r" by (rule skip_ws_cons)
      ultimately show ?thesis using ws big by (intro ihe) simp
    qed
    show ?thesis
      using pv pe by (auto split: list.splits sum.splits prod.splits)
  qed
  have m: "parse_members (Suc n) s \<noteq> Inl OutOfFuel" if big: "2 * length s + 1 < Suc n" for s
  proof -
    have pm1: "parse_value n (skip_ws r2) \<noteq> Inl OutOfFuel"
      if "skip_ws s = q # r" "parse_chars r = Inr (k, r1)" "skip_ws r1 = col # r2" for q r k r1 col r2
    proof -
      from that have "length r < length s" "length r1 < length r" "length r2 < length r1"
        by (auto dest: skip_ws_cons parse_chars_shorter)
      moreover have "length (skip_ws r2) \<le> length r2" by (rule skip_ws_length)
      ultimately show ?thesis using big by (intro ihv) simp
    qed
    have pm2: "parse_members n r4 \<noteq> Inl OutOfFuel"
      if "skip_ws s = q # r" "parse_chars r = Inr (k, r1)" "skip_ws r1 = col # r2"
        "parse_value n (skip_ws r2) = Inr (v, r3)" "skip_ws r3 = d # r4" for q r k r1 col r2 v r3 d r4
    proof -
      from that have "length r < length s" "length r1 < length r" "length r2 < length r1"
        "length r3 < length (skip_ws r2)" "length r4 < length r3"
        by (auto dest: skip_ws_cons parse_chars_shorter parse_value_shorter)
      moreover have "length (skip_ws r2) \<le> length r2" by (rule skip_ws_length)
      ultimately show ?thesis using big by (intro ihm) simp
    qed
    have "parse_members (Suc n) s = Inl OutOfFuel \<Longrightarrow> False"
      using parse_chars_fuel
      by (auto split: list.splits sum.splits prod.splits if_splits) (blast dest: pm1 pm2)+
    then show ?thesis by blast
  qed
  from v e m show ?case by blast
qed

lemma JSON_parse_never_out_of_fuel: "JSON_parse s \<noteq> Inl OutOfFuel"
proof -
  have "2 * length (skip_ws s) < fuel s"
    using skip_ws_length [of s] by (simp add: fuel_def)
  then have "parse_value (fuel s) (skip_ws s) \<noteq> Inl OutOfFuel"
    using parse_enough_fuel [of "fuel s"] by blast
  then show ?thesis
    by (auto simp: JSON_parse_def split: sum.splits prod.splits)
qed

subsection \<open>Saving and loading\<close>

text \<open>
  C1, as amended. When the serialized collection fits into the room that the store has,
  \<^verbatim>\<open>save\<close> overwrites the slot with it, whatever the slot held, and touches nothing else.
  For a well-formed collection, \<^verbatim>\<open>load\<close> then hands to \<^verbatim>\<open>setTodos\<close> the array of the same
  tasks, in the same order, so the state after loading is the collection that was saved;
  the slot is left as saved.
\<close>

theorem load_save_roundtrip:
  assumes "well_formed ts" and "length (JSON_stringify ts) \<le> quota"
  shows "save quota ts b = Inr (b\<lparr>storage := Some (JSON_stringify ts)\<rparr>) \<and>
         load (b\<lparr>storage := Some (JSON_stringify ts)\<rparr>) =
           Inr (Some (json_of_todos ts), b\<lparr>storage := Some (JSON_stringify ts)\<rparr>) \<and>
         todos_after_load (Some (json_of_todos ts)) = Some ts \<and>
         (case save quota ts b of
            Inl e \<Rightarrow> None
          | Inr b' \<Rightarrow> (case load b' of Inl e \<Rightarrow> None | Inr (v, b'') \<Rightarrow> todos_after_load v)) =
           Some ts"
  using assms
  by (simp add: load_def save_def getItem_def setItem_def JSON_stringify_nonempty
      JSON_parse_stringify todos_after_load_def as_todos_json_of_todos)

theorem load_save_roundtrip_witness:
  "well_formed [milk, bread] \<and> length (JSON_stringify [milk, bread]) \<le> 5000000 \<and>
   save 5000000 [milk, bread] fresh_browser =
     Inr (fresh_browser\<lparr>storage := Some (JSON_stringify [milk, bread])\<rparr>) \<and>
   load (fresh_browser\<lparr>storage := Some (JSON_stringify [milk, bread])\<rparr>) =
     Inr (Some (json_of_todos [milk, bread]),
          fresh_browser\<lparr>storage := Some (JSON_stringify [milk, bread])\<rparr>) \<and>
   (case save 5000000 [milk, bread] fresh_browser of
      Inl e \<Rightarrow> None
    | Inr b' \<Rightarrow> (case load b' of Inl e \<Rightarrow> None | Inr (v, b'') \<Rightarrow> todos_after_load v)) =
     Some [milk, bread]"
proof -
  have wf: "well_formed [milk, bread]"
    by (simp add: well_formed_def milk_def bread_def)
  have fits: "length (JSON_stringify [milk, bread]) \<le> 5000000"
    by (simp add: length_JSON_stringify_milk_bread)
  from load_save_roundtrip [OF wf fits, of fresh_browser] wf fits show ?thesis
    by simp
qed

text \<open>
  C1 as the specification states it fails when the store is short of room. With room for
  64 code units and the empty array in the slot, saving the well-formed collection
  \<open>[milk]\<close> (97 code units) throws, the slot keeps the empty array, and loading gives the
  empty collection, not the one that was to be saved.
\<close>

theorem save_over_quota_keeps_slot:
  "well_formed [milk] \<and>
   save 64 [milk] \<lparr>storage = Some (lit ''[]''), console = []\<rparr> = Inl QuotaExceededError \<and>
   load \<lparr>storage = Some (lit ''[]''), console = []\<rparr> =
     Inr (Some (JArr []), \<lparr>storage = Some (lit ''[]''), console = []\<rparr>) \<and>
   todos_after_load (Some (JArr [])) = Some [] \<and>
   (case save 64 [milk] \<lparr>storage = Some (lit ''[]''), console = []\<rparr> of
      Inl e \<Rightarrow> None
    | Inr b' \<Rightarrow> (case load b' of Inl e \<Rightarrow> None | Inr (v, b'') \<Rightarrow> todos_after_load v)) \<noteq>
     Some [milk]"
proof -
  have p: "JSON_parse (lit ''[]'') = Inr (JArr [])"
    by (simp add: JSON_parse_def fuel_def skip_ws_def is_ws_def lit_def parse_numeral_fuel)
  have w: "well_formed [milk]" by (simp add: well_formed_def milk_def)
  have s: "save 64 [milk] \<lparr>storage = Some (lit ''[]''), console = []\<rparr> = Inl QuotaExceededError"
    by (simp add: save_def setItem_def length_JSON_stringify_milk)
  have l: "load \<lparr>storage = Some (lit ''[]''), console = []\<rparr> =
     Inr (Some (JArr []), \<lparr>storage = Some (lit ''[]''), console = []\<rparr>)"
    using p by (simp add: load_def getItem_def lit_def)
  have t: "todos_after_load (Some (JArr [])) = Some []"
    by (simp add: todos_after_load_def as_todos_def)
  from w s l t show ?thesis by simp
qed

text \<open>
  In general: a collection that does not fit is not saved, whatever the slot holds.
\<close>

lemma save_over_quota:
  "quota < length (JSON_stringify ts) \<Longrightarrow> save quota ts b = Inl QuotaExceededError"
  by (simp add: save_def setItem_def)

text \<open>
  C2, as amended. \<^verbatim>\<open>load\<close> never throws. When the slot is absent or holds the empty
  string, it leaves the state at the empty collection and the browser as it is. When the
  slot holds a non-empty string that \<^verbatim>\<open>JSON.parse\<close> rejects, it leaves the state at the
  empty collection, removes the slot and logs one message; nothing else shows the
  failure. When the slot holds a string that parses, the parsed value becomes the state
  and the browser is left as it is.
\<close>

theorem load_cases:
  "(\<exists>r. load b = Inr r) \<and>
   (storage b = None \<or> storage b = Some [] \<longrightarrow> load b = Inr (None, b)) \<and>
   (\<forall>s e. storage b = Some s \<and> s \<noteq> [] \<and> JSON_parse s = Inl e \<longrightarrow>
      load b = Inr (None, b\<lparr>storage := None,
        console := console b @ [lit ''Error parsing todos from localStorage:'']\<rparr>)) \<and>
   (\<forall>s v. storage b = Some s \<and> s \<noteq> [] \<and> JSON_parse s = Inr v \<longrightarrow> load b = Inr (Some v, b)) \<and>
   todos_after_load None = Some []"
  by (auto simp: load_def getItem_def removeItem_def console_error_def todos_after_load_def
      initial_def split: option.splits sum.splits)

theorem load_cases_witness:
  "load fresh_browser = Inr (None, fresh_browser) \<and>
   JSON_parse (lit ''{nope'') = Inl SyntaxError \<and>
   load \<lparr>storage = Some (lit ''{nope''), console = []\<rparr> =
     Inr (None, \<lparr>storage = None, console = [lit ''Error parsing todos from localStorage:'']\<rparr>)"
  using load_cases [of fresh_browser] load_cases [of "\<lparr>storage = Some (lit ''{nope''), console = []\<rparr>"]
    JSON_parse_garbage
  by (simp add: fresh_browser_def lit_def)

text \<open>
  C2 as the specification states it fails on the empty string: it is present, it does
  not parse, and \<^verbatim>\<open>load\<close> leaves it in the slot, because the guard treats it like an
  absent slot.
\<close>

theorem load_keeps_empty_string:
  "JSON_parse [] = Inl SyntaxError \<and>
   load \<lparr>storage = Some [], console = []\<rparr> = Inr (None, \<lparr>storage = Some [], console = []\<rparr>) \<and>
   storage (snd (projr (load \<lparr>storage = Some [], console = []\<rparr>))) \<noteq> None"
  by (simp add: JSON_parse_empty load_def getItem_def)

end
